theory Spec2Isabelle
  imports Complex_Main "HOL-Library.Word"
begin

section \<open>Configuration\<close>

text \<open>
  The module constants of \<^verbatim>\<open>main.py\<close>. \<^verbatim>\<open>MOTION_THRESHOLD\<close> is the Python
  float \<^verbatim>\<open>0.05\<close>; it is used once, in the product
  \<^verbatim>\<open>FRAME_WIDTH * FRAME_HEIGHT * MOTION_THRESHOLD\<close>, which an integer pixel count is
  compared with. The double nearest to 0.05 exceeds it by less than \<open>3e-18\<close>, so the
  double product is 15360.0, the value of the exact product below.
\<close>

definition FRAME_WIDTH :: int where
  "FRAME_WIDTH = 640"

definition FRAME_HEIGHT :: int where
  "FRAME_HEIGHT = 480"

definition BUFFER_SIZE :: int where
  "BUFFER_SIZE = 128"

definition MOTION_THRESHOLD :: real where
  "MOTION_THRESHOLD = 5 / 100"

definition VIDEO_DIR :: string where
  "VIDEO_DIR = ''recordings''"

definition METADATA_DIR :: string where
  "METADATA_DIR = ''metadata''"

section \<open>The frame buffer: Python's \<^verbatim>\<open>queue.Queue\<close>\<close>

text \<open>
  \<^verbatim>\<open>Queue(maxsize)\<close> holds its items oldest first; a \<^verbatim>\<open>maxsize\<close> of zero or less
  means no bound. \<^verbatim>\<open>get_nowait\<close> raises \<^verbatim>\<open>Empty\<close> on an empty queue. \<^verbatim>\<open>put\<close> and
  \<^verbatim>\<open>get\<close> are called with their default \<^verbatim>\<open>block=True\<close> and no timeout: they raise
  nothing and wait, \<^verbatim>\<open>put\<close> while the queue is full and \<^verbatim>\<open>get\<close> while it is empty.
  A call that has to wait is the value \<open>None\<close>.
\<close>

record 'a Queue =
  maxsize :: int
  queue :: "'a list"

datatype queue_error = Empty

definition Queue_full :: "'a Queue \<Rightarrow> bool" where
  "Queue_full q = (0 < maxsize q \<and> maxsize q \<le> int (length (queue q)))"

definition Queue_empty :: "'a Queue \<Rightarrow> bool" where
  "Queue_empty q = (length (queue q) = 0)"

definition Queue_get_nowait :: "'a Queue \<Rightarrow> queue_error + ('a \<times> 'a Queue)" where
  "Queue_get_nowait q =
     (case queue q of
        [] \<Rightarrow> Inl Empty
      | x # xs \<Rightarrow> Inr (x, q\<lparr>queue := xs\<rparr>))"

definition Queue_put :: "'a Queue \<Rightarrow> 'a \<Rightarrow> 'a Queue option" where
  "Queue_put q item =
     (if 0 < maxsize q \<and> maxsize q \<le> int (length (queue q)) then None
      else Some (q\<lparr>queue := queue q @ [item]\<rparr>))"

definition Queue_get :: "'a Queue \<Rightarrow> ('a \<times> 'a Queue) option" where
  "Queue_get q =
     (case queue q of
        [] \<Rightarrow> None
      | x # xs \<Rightarrow> Some (x, q\<lparr>queue := xs\<rparr>))"

text \<open>
  Lines 64 to 69 of \<^verbatim>\<open>capture_frames\<close>: when the buffer is full the oldest frame is
  discarded (an \<^verbatim>\<open>Empty\<close> raised there is caught and ignored), then the frame is put.
\<close>

definition enqueue :: "'a Queue \<Rightarrow> 'a \<Rightarrow> 'a Queue option" where
  "enqueue q frame =
     (let q1 = (if Queue_full q
                then (case Queue_get_nowait q of
                        Inl Empty \<Rightarrow> q
                      | Inr (_, q') \<Rightarrow> q')
                else q)
      in Queue_put q1 frame)"

text \<open>A sequence of such puts, one frame after the other, with no take in between.\<close>

fun enqueue_all :: "'a Queue \<Rightarrow> 'a list \<Rightarrow> 'a Queue option" where
  "enqueue_all q [] = Some q"
| "enqueue_all q (frame # frames) =
     (case enqueue q frame of
        None \<Rightarrow> None
      | Some q' \<Rightarrow> enqueue_all q' frames)"

text \<open>\<open>n\<close> successive calls of \<^verbatim>\<open>frame_buffer.get()\<close>, with the frames they return.\<close>

fun get_many :: "nat \<Rightarrow> 'a Queue \<Rightarrow> ('a list \<times> 'a Queue) option" where
  "get_many 0 q = Some ([], q)"
| "get_many (Suc n) q =
     (case Queue_get q of
        None \<Rightarrow> None
      | Some (x, q') \<Rightarrow>
          (case get_many n q' of
             None \<Rightarrow> None
           | Some (xs, q'') \<Rightarrow> Some (x # xs, q'')))"

text \<open>
  The bound every \<^verbatim>\<open>Queue\<close> keeps: a bounded queue never holds more than
  \<^verbatim>\<open>maxsize\<close> items.
\<close>

definition Queue_inv :: "'a Queue \<Rightarrow> bool" where
  "Queue_inv q = (maxsize q \<le> 0 \<or> int (length (queue q)) \<le> maxsize q)"

section \<open>Motion detection\<close>

text \<open>
  A single-channel 8-bit image is the list of its rows. The OpenCV operations of
  \<^verbatim>\<open>detect_motion\<close> on such images are written out: \<^verbatim>\<open>absdiff\<close> is the
  per-pixel absolute difference and raises an error when the two images differ in size,
  \<^verbatim>\<open>threshold\<close> with \<^verbatim>\<open>THRESH_BINARY\<close> maps a pixel above the cutoff to the
  maximal value and any other pixel to zero, \<^verbatim>\<open>countNonZero\<close> counts the pixels
  that are not zero. The colour conversion \<^verbatim>\<open>cvtColor(frame, COLOR_BGR2GRAY)\<close> and the
  smoothing \<^verbatim>\<open>GaussianBlur(gray, (21, 21), 0)\<close> are functions of the library; they are
  parameters of the model, and so is the type of colour frames.
\<close>

type_synonym gray = "8 word list list"

datatype cv_error = Sizes_do_not_match

definition shape :: "gray \<Rightarrow> nat list" where
  "shape img = map length img"

definition absdiff :: "gray \<Rightarrow> gray \<Rightarrow> cv_error + gray" where
  "absdiff src1 src2 =
     (if shape src1 \<noteq> shape src2 then Inl Sizes_do_not_match
      else Inr (map2 (map2 (\<lambda>a b. if a \<le> b then b - a else a - b)) src1 src2))"

definition threshold :: "gray \<Rightarrow> 8 word \<Rightarrow> 8 word \<Rightarrow> gray" where
  "threshold src thresh maxval = map (map (\<lambda>p. if thresh < p then maxval else 0)) src"

definition countNonZero :: "gray \<Rightarrow> nat" where
  "countNonZero src = sum_list (map (\<lambda>row. length (filter (\<lambda>p. p \<noteq> 0) row)) src)"

text \<open>
  \<^verbatim>\<open>detect_motion\<close>, with the global \<^verbatim>\<open>previous_gray\<close> passed in and returned.
\<close>

definition detect_motion ::
  "('f \<Rightarrow> gray) \<Rightarrow> (gray \<Rightarrow> gray) \<Rightarrow> 'f \<Rightarrow> gray option \<Rightarrow> cv_error + (bool \<times> gray option)"
where
  "detect_motion cvtColor GaussianBlur frame previous_gray =
     (let gray = cvtColor frame;
          gray = GaussianBlur gray
      in case previous_gray of
           None \<Rightarrow> Inr (False, Some gray)
         | Some previous \<Rightarrow>
             (case absdiff previous gray of
                Inl e \<Rightarrow> Inl e
              | Inr frame_delta \<Rightarrow>
                  let thresh = threshold frame_delta 25 255;
                      motion_area = countNonZero thresh;
                      motion_detected =
                        (real_of_int (FRAME_WIDTH * FRAME_HEIGHT) * MOTION_THRESHOLD
                           < real motion_area)
                  in Inr (motion_detected, Some gray)))"

text \<open>Successive calls of \<^verbatim>\<open>detect_motion\<close> on a list of frames, with their results.\<close>

fun detect_all ::
  "('f \<Rightarrow> gray) \<Rightarrow> (gray \<Rightarrow> gray) \<Rightarrow> 'f list \<Rightarrow> gray option \<Rightarrow> cv_error + (bool list \<times> gray option)"
where
  "detect_all cvtColor GaussianBlur [] previous_gray = Inr ([], previous_gray)"
| "detect_all cvtColor GaussianBlur (frame # frames) previous_gray =
     (case detect_motion cvtColor GaussianBlur frame previous_gray of
        Inl e \<Rightarrow> Inl e
      | Inr (m, g) \<Rightarrow>
          (case detect_all cvtColor GaussianBlur frames g of
             Inl e \<Rightarrow> Inl e
           | Inr (ms, g') \<Rightarrow> Inr (m # ms, g')))"

text \<open>
  The count the specification speaks of, in its own words: the number of pixel positions
  at which the absolute difference of the two smoothed intensities exceeds the cutoff 25.
\<close>

definition changed_pixels :: "gray \<Rightarrow> gray \<Rightarrow> nat" where
  "changed_pixels previous current =
     (\<Sum>(r1, r2) \<leftarrow> zip previous current.
        length (filter (\<lambda>(a, b). 25 < \<bar>uint a - uint b\<bar>) (zip r1 r2)))"


section \<open>Time\<close>

text \<open>
  A \<^verbatim>\<open>datetime\<close> is its number of microseconds since the epoch. The difference of two
  is a \<^verbatim>\<open>timedelta\<close>, which Python keeps normalised as days, seconds (from 0 to 86399)
  and microseconds (from 0 to 999999); the attribute \<^verbatim>\<open>.seconds\<close> reads the second
  field. \<^verbatim>\<open>strftime('%Y%m%d_%H%M%S')\<close> prints the calendar date and time down to the
  second: the model keeps the whole second that the text denotes.
\<close>

type_synonym datetime = int

record timedelta =
  days :: int
  seconds :: int
  microseconds :: int

definition datetime_sub :: "datetime \<Rightarrow> datetime \<Rightarrow> timedelta" where
  "datetime_sub a b =
     (let us = a - b
      in \<lparr>days = us div 86400000000,
          seconds = (us mod 86400000000) div 1000000,
          microseconds = us mod 1000000\<rparr>)"

definition strftime :: "datetime \<Rightarrow> int" where
  "strftime t = t div 1000000"

section \<open>The two worker loops\<close>

text \<open>
  A path is a directory, the time stamp that names the file and the extension. What the
  workers do to the video writers and to the metadata files is recorded, in order, in
  the list \<open>sink\<close>: a writer opened on a path, a frame written to it, the writer
  released, a list of metadata records dumped as JSON to a file opened for writing.
\<close>

type_synonym path = "string \<times> int \<times> string"

record metadata =
  timestamp :: datetime
  motion_detected :: bool

datatype 'f effect =
    VideoWriter path
  | Write path 'f
  | Release path
  | Json_dump path "metadata list"

text \<open>The local variables of \<^verbatim>\<open>process_frames\<close>; \<open>out\<close> is the path its writer is open on.\<close>

record locals =
  current_time :: datetime
  video_path :: path
  metadata_path :: path
  out :: path
  metadata_list :: "metadata list"

datatype cap_thread = Cap_not_started | Cap_running | Cap_blocked | Cap_terminated

datatype proc_thread =
    Proc_not_started
  | Proc_running locals
  | Proc_blocked
  | Proc_crashed cv_error
  | Proc_terminated

record 'f state =
  frame_buffer :: "'f Queue"
  shutdown_event :: bool
  previous_gray :: "gray option"
  capture_thread :: cap_thread
  process_thread :: proc_thread
  sink :: "'f effect list"

definition boot :: "'f state" where
  "boot = \<lparr>frame_buffer = \<lparr>maxsize = BUFFER_SIZE, queue = []\<rparr>,
           shutdown_event = False,
           previous_gray = None,
           capture_thread = Cap_not_started,
           process_thread = Proc_not_started,
           sink = []\<rparr>"

definition handle_signal :: "'f state \<Rightarrow> 'f state" where
  "handle_signal st = st\<lparr>shutdown_event := True\<rparr>"

text \<open>
  \<^verbatim>\<open>capture_frames\<close> up to its loop (\<open>opened\<close> is the result of \<^verbatim>\<open>cap.isOpened()\<close>),
  then one pass through the loop test and the loop body, where \<open>read\<close> is the result of
  \<^verbatim>\<open>cap.read()\<close>: \<open>None\<close> when \<^verbatim>\<open>ret\<close> is false, the frame otherwise.
\<close>

definition capture_start :: "bool \<Rightarrow> 'f state \<Rightarrow> 'f state" where
  "capture_start opened st =
     (if \<not> opened then st\<lparr>shutdown_event := True, capture_thread := Cap_terminated\<rparr>
      else st\<lparr>capture_thread := Cap_running\<rparr>)"

definition capture_iteration :: "'f option \<Rightarrow> 'f state \<Rightarrow> 'f state" where
  "capture_iteration read st =
     (if shutdown_event st then st\<lparr>capture_thread := Cap_terminated\<rparr>
      else case read of
             None \<Rightarrow> st
           | Some frame \<Rightarrow>
               (case enqueue (frame_buffer st) frame of
                  None \<Rightarrow> st\<lparr>capture_thread := Cap_blocked\<rparr>
                | Some q \<Rightarrow> st\<lparr>frame_buffer := q\<rparr>))"

text \<open>
  \<^verbatim>\<open>process_frames\<close> up to its loop, at clock reading \<open>t0\<close>, then one pass through the
  loop test and the loop body. The body reads the clock three times: \<open>t1\<close> for the time
  stamp of the record, \<open>t2\<close> for the rotation test, \<open>t3\<close> for the start of the new
  segment. When the loop test fails, the code after the loop runs.
\<close>

definition process_start :: "datetime \<Rightarrow> 'f state \<Rightarrow> 'f state" where
  "process_start t0 st =
     (let video = (VIDEO_DIR, strftime t0, ''mp4'');
          meta = (METADATA_DIR, strftime t0, ''json'')
      in st\<lparr>sink := sink st @ [VideoWriter video],
            process_thread :=
              Proc_running \<lparr>current_time = t0, video_path = video, metadata_path = meta,
                             out = video, metadata_list = []\<rparr>\<rparr>)"

definition process_iteration ::
  "('f \<Rightarrow> gray) \<Rightarrow> (gray \<Rightarrow> gray) \<Rightarrow> datetime \<Rightarrow> datetime \<Rightarrow> datetime \<Rightarrow> locals \<Rightarrow> 'f state \<Rightarrow> 'f state"
where
  "process_iteration cvtColor GaussianBlur t1 t2 t3 l st =
     (if shutdown_event st
      then st\<lparr>sink := sink st @ [Json_dump (metadata_path l) (metadata_list l), Release (out l)],
              process_thread := Proc_terminated\<rparr>
      else if Queue_empty (frame_buffer st) then st
      else case Queue_get (frame_buffer st) of
             None \<Rightarrow> st\<lparr>process_thread := Proc_blocked\<rparr>
           | Some (frame, q) \<Rightarrow>
               (case detect_motion cvtColor GaussianBlur frame (previous_gray st) of
                  Inl e \<Rightarrow> st\<lparr>frame_buffer := q, process_thread := Proc_crashed e\<rparr>
                | Inr (motion, g) \<Rightarrow>
                    let written = sink st @ [Write (out l) frame];
                        records = metadata_list l @ [\<lparr>timestamp = t1, motion_detected = motion\<rparr>]
                    in if 3600 \<le> seconds (datetime_sub t2 (current_time l))
                       then let video = (VIDEO_DIR, strftime t3, ''mp4'');
                                meta = (METADATA_DIR, strftime t3, ''json'')
                            in st\<lparr>frame_buffer := q, previous_gray := g,
                                  sink := written @ [Json_dump (metadata_path l) records,
                                                     Release (out l), VideoWriter video],
                                  process_thread :=
                                    Proc_running \<lparr>current_time = t3, video_path = video,
                                                   metadata_path = meta, out = video,
                                                   metadata_list = []\<rparr>\<rparr>
                       else st\<lparr>frame_buffer := q, previous_gray := g, sink := written,
                               process_thread := Proc_running (l\<lparr>metadata_list := records\<rparr>)\<rparr>))"

text \<open>
  The system moves by events: a termination signal is delivered, a worker starts, a
  worker goes once through its loop. A worker that is not running does nothing.
\<close>

datatype 'f event =
    Signal
  | Start_capture bool
  | Capture "'f option"
  | Start_process datetime
  | Process datetime datetime datetime

fun step :: "('f \<Rightarrow> gray) \<Rightarrow> (gray \<Rightarrow> gray) \<Rightarrow> 'f state \<Rightarrow> 'f event \<Rightarrow> 'f state" where
  "step cvtColor GaussianBlur st Signal = handle_signal st"
| "step cvtColor GaussianBlur st (Start_capture opened) =
     (if capture_thread st = Cap_not_started then capture_start opened st else st)"
| "step cvtColor GaussianBlur st (Capture read) =
     (if capture_thread st = Cap_running then capture_iteration read st else st)"
| "step cvtColor GaussianBlur st (Start_process t0) =
     (if process_thread st = Proc_not_started then process_start t0 st else st)"
| "step cvtColor GaussianBlur st (Process t1 t2 t3) =
     (case process_thread st of
        Proc_running l \<Rightarrow> process_iteration cvtColor GaussianBlur t1 t2 t3 l st
      | _ \<Rightarrow> st)"

fun run :: "('f \<Rightarrow> gray) \<Rightarrow> (gray \<Rightarrow> gray) \<Rightarrow> 'f state \<Rightarrow> 'f event list \<Rightarrow> 'f state" where
  "run cvtColor GaussianBlur st [] = st"
| "run cvtColor GaussianBlur st (e # es) =
     run cvtColor GaussianBlur (step cvtColor GaussianBlur st e) es"

text \<open>The metadata files written so far, in order, each with the records dumped to it.\<close>

fun json_dumps :: "'f effect list \<Rightarrow> (path \<times> metadata list) list" where
  "json_dumps [] = []"
| "json_dumps (Json_dump p records # es) = (p, records) # json_dumps es"
| "json_dumps (_ # es) = json_dumps es"

text \<open>
  Two readings of the record of effects, for the statements about segments. The first
  takes the effects latest first and counts the frames written to the writer on path
  \<open>p\<close> since it was opened; it is \<open>None\<close> when something else than frame writes to
  this writer has happened since. The second lists the clock readings of an event.
\<close>

fun written_since_open :: "path \<Rightarrow> 'f effect list \<Rightarrow> nat option" where
  "written_since_open p [] = None"
| "written_since_open p (VideoWriter p' # es) = (if p' = p then Some 0 else None)"
| "written_since_open p (Write p' frame # es) =
     (if p' = p then map_option Suc (written_since_open p es) else None)"
| "written_since_open p (_ # es) = None"

fun readings :: "'f event \<Rightarrow> datetime list" where
  "readings (Start_process t0) = [t0]"
| "readings (Process t1 t2 t3) = [t1, t2, t3]"
| "readings _ = []"

text \<open>
  Two invariants of the processing loop. The first: while the loop runs, the effects
  since its video writer was opened are frame writes to that writer, as many as there
  are records in the metadata list. The second, with \<open>now\<close> a clock reading not before
  the start of the active segment: the metadata file of the active segment is named
  after the start of the segment, and every metadata file written so far carries an
  earlier time stamp.
\<close>

definition segment_inv :: "'f state \<Rightarrow> bool" where
  "segment_inv st =
     (case process_thread st of
        Proc_running l \<Rightarrow>
          written_since_open (out l) (rev (sink st)) = Some (length (metadata_list l))
      | _ \<Rightarrow> True)"

definition fresh_inv :: "datetime \<Rightarrow> 'f state \<Rightarrow> bool" where
  "fresh_inv now st =
     (case process_thread st of
        Proc_not_started \<Rightarrow> json_dumps (sink st) = []
      | Proc_running l \<Rightarrow>
          current_time l \<le> now
          \<and> metadata_path l = (METADATA_DIR, strftime (current_time l), ''json'')
          \<and> (\<forall>(p, records) \<in> set (json_dumps (sink st)). fst (snd p) < strftime (current_time l))
      | _ \<Rightarrow> True)"

section \<open>Properties of the frame buffer\<close>

lemma enqueue_Some:
  assumes "Queue_inv q"
  shows "enqueue q frame =
           Some (q\<lparr>queue := (if Queue_full q then tl (queue q) else queue q) @ [frame]\<rparr>)"
proof (cases "Queue_full q")
  case True
  then obtain x xs where xs: "queue q = x # xs"
    by (cases "queue q") (auto simp: Queue_full_def)
  with True assms show ?thesis
    by (auto simp: enqueue_def Queue_full_def Queue_get_nowait_def Queue_put_def Queue_inv_def)
next
  case False
  then show ?thesis
    by (auto simp: enqueue_def Queue_full_def Queue_put_def)
qed

lemma enqueue_inv:
  assumes "Queue_inv q" and "enqueue q frame = Some q'"
  shows "Queue_inv q' \<and> maxsize q' = maxsize q"
  using assms enqueue_Some [OF assms(1), of frame]
  by (auto simp: Queue_inv_def Queue_full_def split: if_splits)

lemma enqueue_bounded:
  assumes "0 < maxsize q" and "int (length (queue q)) \<le> maxsize q"
  shows "enqueue q frame =
           Some (q\<lparr>queue := drop (length (queue q @ [frame]) - nat (maxsize q)) (queue q @ [frame])\<rparr>)"
proof -
  have inv: "Queue_inv q"
    using assms by (simp add: Queue_inv_def)
  show ?thesis
  proof (cases "Queue_full q")
    case True
    with assms have len: "length (queue q) = nat (maxsize q)"
      by (auto simp: Queue_full_def)
    with assms(1) obtain x xs where xs: "queue q = x # xs"
      by (cases "queue q") auto
    from len xs have "Suc (length xs) - nat (maxsize q) = 0"
      by simp
    with True xs len show ?thesis
      by (simp add: enqueue_Some [OF inv])
  next
    case False
    with assms have "length (queue q) < nat (maxsize q)"
      by (auto simp: Queue_full_def)
    with False show ?thesis
      by (simp add: enqueue_Some [OF inv])
  qed
qed

lemma enqueue_all_bounded:
  assumes "0 < maxsize q" and "int (length (queue q)) \<le> maxsize q"
  shows "enqueue_all q frames =
           Some (q\<lparr>queue := drop (length (queue q @ frames) - nat (maxsize q)) (queue q @ frames)\<rparr>)"
  using assms
proof (induction frames arbitrary: q)
  case Nil
  then show ?case by simp
next
  case (Cons frame frames)
  let ?q' = "q\<lparr>queue := drop (length (queue q @ [frame]) - nat (maxsize q)) (queue q @ [frame])\<rparr>"
  have step: "enqueue q frame = Some ?q'"
    using Cons.prems by (rule enqueue_bounded)
  have m: "0 < maxsize ?q'" and l: "int (length (queue ?q')) \<le> maxsize ?q'"
    using Cons.prems by auto
  have "enqueue_all ?q' frames =
          Some (?q'\<lparr>queue := drop (length (queue ?q' @ frames) - nat (maxsize ?q')) (queue ?q' @ frames)\<rparr>)"
    using m l by (rule Cons.IH)
  moreover have "drop (length (queue ?q' @ frames) - nat (maxsize ?q')) (queue ?q' @ frames) =
                 drop (length (queue q @ frame # frames) - nat (maxsize q)) (queue q @ frame # frames)"
  proof (cases "length (queue q) < nat (maxsize q)")
    case True
    then show ?thesis by simp
  next
    case False
    with Cons.prems have len: "length (queue q) = nat (maxsize q)"
      by auto
    with Cons.prems(1) obtain x xs where xs: "queue q = x # xs"
      by (cases "queue q") auto
    with len show ?thesis
      by (simp add: Suc_diff_le)
  qed
  ultimately show ?case
    using step by simp
qed

lemma get_many_all: "get_many (length (queue q)) q = Some (queue q, q\<lparr>queue := []\<rparr>)"
proof (induction "queue q" arbitrary: q)
  case Nil
  then show ?case by simp
next
  case (Cons x xs)
  from Cons.hyps(2) have q: "queue q = x # xs" by simp
  have "xs = queue (q\<lparr>queue := xs\<rparr>)" by simp
  from Cons.hyps(1) [OF this]
  show ?case
    by (simp add: q Queue_get_def)
qed

text \<open>
  Claim C1. When frames are put one after the other into a buffer of capacity
  \<open>maxsize q\<close>, with no take in between, every put returns, the buffer never holds
  more than its capacity, and it holds exactly the most recent frames, in the order they
  were put: the last \<open>maxsize q\<close> of the frames put, once at least that many have been
  put. The calls of \<^verbatim>\<open>get\<close> that follow return exactly these frames, in that order, each
  once, and leave the buffer empty. The statement holds for every list of frames, hence
  after every put of a sequence.
\<close>

theorem overflow_keeps_most_recent:
  assumes "0 < maxsize q" and "int (length (queue q)) \<le> maxsize q"
  shows "\<exists>q'. enqueue_all q frames = Some q'
           \<and> maxsize q' = maxsize q
           \<and> int (length (queue q')) \<le> maxsize q
           \<and> queue q' = drop (length (queue q @ frames) - nat (maxsize q)) (queue q @ frames)
           \<and> (nat (maxsize q) \<le> length frames \<longrightarrow>
                queue q' = drop (length frames - nat (maxsize q)) frames)
           \<and> get_many (length (queue q')) q' = Some (queue q', q'\<lparr>queue := []\<rparr>)"
proof -
  define kept where "kept = drop (length (queue q @ frames) - nat (maxsize q)) (queue q @ frames)"
  define q' where "q' = q\<lparr>queue := kept\<rparr>"
  have run: "enqueue_all q frames = Some q'"
    unfolding q'_def kept_def using assms by (rule enqueue_all_bounded)
  have m: "maxsize q' = maxsize q" and k: "queue q' = kept"
    by (simp_all add: q'_def)
  have bound: "int (length kept) \<le> maxsize q"
    using assms by (simp add: kept_def)
  have recent: "nat (maxsize q) \<le> length frames \<longrightarrow>
                  kept = drop (length frames - nat (maxsize q)) frames"
    by (simp add: kept_def)
  have taken: "get_many (length (queue q')) q' = Some (queue q', q'\<lparr>queue := []\<rparr>)"
    by (rule get_many_all)
  show ?thesis
  proof (intro exI [of _ q'] conjI)
    show "enqueue_all q frames = Some q'" by (rule run)
    show "maxsize q' = maxsize q" by (rule m)
    show "int (length (queue q')) \<le> maxsize q" using bound k by simp
    show "queue q' = drop (length (queue q @ frames) - nat (maxsize q)) (queue q @ frames)"
      using k by (simp only: kept_def)
    show "nat (maxsize q) \<le> length frames \<longrightarrow>
            queue q' = drop (length frames - nat (maxsize q)) frames"
      using recent k by simp
    show "get_many (length (queue q')) q' = Some (queue q', q'\<lparr>queue := []\<rparr>)"
      by (rule taken)
  qed
qed

theorem overflow_keeps_most_recent_witness:
  "0 < maxsize \<lparr>maxsize = 3, queue = ([] :: nat list)\<rparr>
   \<and> int (length (queue \<lparr>maxsize = 3, queue = ([] :: nat list)\<rparr>))
        \<le> maxsize \<lparr>maxsize = 3, queue = ([] :: nat list)\<rparr>
   \<and> (\<exists>q'. enqueue_all \<lparr>maxsize = 3, queue = []\<rparr> [1, 2, 3, 4, 5 :: nat] = Some q'
          \<and> queue q' = [3, 4, 5]
          \<and> get_many 3 q' = Some ([3, 4, 5], q'\<lparr>queue := []\<rparr>))"
proof -
  let ?q = "\<lparr>maxsize = 3, queue = ([] :: nat list)\<rparr>"
  have h1: "0 < maxsize ?q" by simp
  have h2: "int (length (queue ?q)) \<le> maxsize ?q" by simp
  from overflow_keeps_most_recent [OF h1 h2, of "[1, 2, 3, 4, 5]"]
  obtain q' where run: "enqueue_all ?q [1, 2, 3, 4, 5] = Some q'"
    and kept: "queue q' = drop (length (queue ?q @ [1, 2, 3, 4, 5]) - nat (maxsize ?q)) (queue ?q @ [1, 2, 3, 4, 5])"
    and taken: "get_many (length (queue q')) q' = Some (queue q', q'\<lparr>queue := []\<rparr>)"
    by blast
  from kept have k: "queue q' = [3, 4, 5]" by simp
  then have len: "length (queue q') = 3" by simp
  from taken [unfolded len] have "get_many 3 q' = Some ([3, 4, 5], q'\<lparr>queue := []\<rparr>)"
    by (simp only: k)
  with run k h1 h2 show ?thesis by blast
qed

text \<open>
  Claim C8. In every state of the buffer, putting a frame as \<^verbatim>\<open>capture_frames\<close> does
  returns at once and raises nothing: when the buffer is full exactly the oldest frame is
  dropped, then the frame is added at the end; the bound of the buffer is kept.
\<close>

theorem put_never_blocks:
  assumes "Queue_inv q"
  shows "\<exists>q'. enqueue q frame = Some q'
           \<and> queue q' = (if Queue_full q then tl (queue q) else queue q) @ [frame]
           \<and> maxsize q' = maxsize q
           \<and> Queue_inv q'"
proof -
  define q' where "q' = q\<lparr>queue := (if Queue_full q then tl (queue q) else queue q) @ [frame]\<rparr>"
  have put: "enqueue q frame = Some q'"
    unfolding q'_def using assms by (rule enqueue_Some)
  with assms have "Queue_inv q' \<and> maxsize q' = maxsize q"
    by (rule enqueue_inv)
  moreover have "queue q' = (if Queue_full q then tl (queue q) else queue q) @ [frame]"
    by (simp add: q'_def)
  ultimately show ?thesis
    using put by blast
qed

theorem put_never_blocks_witness:
  "Queue_inv \<lparr>maxsize = 2, queue = [10, 20 :: nat]\<rparr>
   \<and> (\<exists>q'. enqueue \<lparr>maxsize = 2, queue = [10, 20 :: nat]\<rparr> 30 = Some q'
          \<and> queue q' = [20, 30] \<and> maxsize q' = 2)"
proof -
  let ?q = "\<lparr>maxsize = 2, queue = [10, 20 :: nat]\<rparr>"
  have inv: "Queue_inv ?q" by (simp add: Queue_inv_def)
  have full: "Queue_full ?q" by (simp add: Queue_full_def)
  from put_never_blocks [OF inv, of 30]
  obtain q' where "enqueue ?q 30 = Some q'"
    and "queue q' = (if Queue_full ?q then tl (queue ?q) else queue ?q) @ [30]"
    and "maxsize q' = maxsize ?q"
    by blast
  with full inv show ?thesis by simp
qed

section \<open>Properties of motion detection\<close>

lemma pixel_exceeds:
  fixes a b :: "8 word"
  shows "(25 < (if a \<le> b then b - a else a - b)) = (25 < \<bar>uint a - uint b\<bar>)"
proof (cases "a \<le> b")
  case True
  then have "uint a \<le> uint b"
    by (simp add: word_le_def)
  then have "uint (b - a) = uint b - uint a"
    by (simp add: uint_sub_lem)
  with True \<open>uint a \<le> uint b\<close> show ?thesis
    by (simp add: word_less_def)
next
  case False
  then have "uint b \<le> uint a"
    by (simp add: word_le_def)
  then have "uint (a - b) = uint a - uint b"
    by (simp add: uint_sub_lem)
  with False \<open>uint b \<le> uint a\<close> show ?thesis
    by (simp add: word_less_def)
qed

lemma pixel_counted:
  fixes a b :: "8 word"
  shows "((if 25 < (if a \<le> b then b - a else a - b) then 255 else 0 :: 8 word) \<noteq> 0)
           = (25 < \<bar>uint a - uint b\<bar>)"
proof -
  have "((if 25 < (if a \<le> b then b - a else a - b) then 255 else 0 :: 8 word) \<noteq> 0)
          = (25 < (if a \<le> b then b - a else a - b))"
    by simp
  then show ?thesis
    by (simp only: pixel_exceeds)
qed

lemma length_filter_map_map2:
  assumes "\<And>x y. P (g (f x y)) = Q x y"
  shows "length (filter P (map g (map2 f xs ys))) = length (filter (\<lambda>(x, y). Q x y) (zip xs ys))"
proof (induction xs arbitrary: ys)
  case Nil
  then show ?case by simp
next
  case (Cons x xs)
  then show ?case
    by (cases ys) (simp_all add: assms)
qed

lemma sum_list_map_map2:
  assumes "\<And>x y. F (g (f x y)) = G x y"
  shows "sum_list (map F (map g (map2 f xs ys))) = (\<Sum>(x, y) \<leftarrow> zip xs ys. G x y)"
proof (induction xs arbitrary: ys)
  case Nil
  then show ?case by simp
next
  case (Cons x xs)
  then show ?case
    by (cases ys) (simp_all add: assms)
qed

lemma count_row:
  fixes r1 r2 :: "8 word list"
  shows "length (filter (\<lambda>p. p \<noteq> 0)
     (map (\<lambda>p. if 25 < p then 255 else (0 :: 8 word))
        (map2 (\<lambda>a b. if a \<le> b then b - a else a - b) r1 r2)))
   = length (filter (\<lambda>(a, b). 25 < \<bar>uint a - uint b\<bar>) (zip r1 r2))"
  by (rule length_filter_map_map2) (rule pixel_counted)

lemma count_changed:
  fixes previous current :: gray
  shows "countNonZero (threshold (map2 (map2 (\<lambda>a b. if a \<le> b then b - a else a - b)) previous current) 25 255)
     = changed_pixels previous current"
  unfolding countNonZero_def threshold_def changed_pixels_def
  by (rule sum_list_map_map2) (rule count_row)

lemma detect_motion_next:
  "detect_motion cvtColor GaussianBlur frame (Some previous) =
     (if shape previous \<noteq> shape (GaussianBlur (cvtColor frame)) then Inl Sizes_do_not_match
      else Inr (real_of_int (FRAME_WIDTH * FRAME_HEIGHT) * MOTION_THRESHOLD
                  < real (changed_pixels previous (GaussianBlur (cvtColor frame))),
                Some (GaussianBlur (cvtColor frame))))"
  by (simp add: detect_motion_def absdiff_def Let_def count_changed)

lemma detect_motion_first:
  "detect_motion cvtColor GaussianBlur frame None = Inr (False, Some (GaussianBlur (cvtColor frame)))"
  by (simp add: detect_motion_def Let_def)

lemma changed_pixels_same: "changed_pixels g g = 0"
  by (simp add: changed_pixels_def zip_same_conv_map o_def)


lemma detect_motion_baseline:
  assumes "detect_motion cvtColor GaussianBlur frame previous = Inr (m, g)"
  shows "g = Some (GaussianBlur (cvtColor frame))"
proof (cases previous)
  case None
  with assms show ?thesis by (simp add: detect_motion_first)
next
  case (Some p)
  with assms show ?thesis by (simp add: detect_motion_next split: if_splits)
qed

lemma detect_all_baseline:
  assumes "detect_all cvtColor GaussianBlur frames previous = Inr (ms, g)" and "frames \<noteq> []"
  shows "g = Some (GaussianBlur (cvtColor (last frames)))"
  using assms
proof (induction frames arbitrary: previous ms)
  case Nil
  then show ?case by simp
next
  case (Cons frame frames)
  from Cons.prems(1) obtain m g_a ms' where
    one: "detect_motion cvtColor GaussianBlur frame previous = Inr (m, g_a)"
    and rest: "detect_all cvtColor GaussianBlur frames g_a = Inr (ms', g)"
    by (auto split: sum.splits prod.splits)
  show ?case
  proof (cases "frames = []")
    case True
    with rest have "g = g_a" by simp
    with one True show ?thesis by (simp add: detect_motion_baseline)
  next
    case False
    with rest Cons.IH show ?thesis by simp
  qed
qed


text \<open>
  Claim C5. The first call of \<^verbatim>\<open>detect_motion\<close>, the one that finds no baseline, returns
  false for every frame and stores the grey, smoothed frame as the baseline.
\<close>

theorem first_call_returns_false:
  "detect_motion cvtColor GaussianBlur frame None =
     Inr (False, Some (GaussianBlur (cvtColor frame)))"
  by (simp add: detect_motion_def Let_def)




text \<open>
  Claim C7. Every call of \<^verbatim>\<open>detect_motion\<close> that returns, the first one included,
  leaves the grey, smoothed current frame as the baseline; so does every sequence of
  calls, whose baseline is that of its last frame. Hence the call after a frame compares
  with that frame, whatever the baseline was before it.
\<close>

theorem baseline_is_current_frame:
  "(detect_motion cvtColor GaussianBlur frame previous = Inr (m, g) \<longrightarrow>
      g = Some (GaussianBlur (cvtColor frame)))
   \<and> (detect_all cvtColor GaussianBlur frames previous = Inr (ms, g') \<and> frames \<noteq> [] \<longrightarrow>
        g' = Some (GaussianBlur (cvtColor (last frames))))
   \<and> (detect_motion cvtColor GaussianBlur frame_a previous = Inr (m_a, g_a)
        \<and> detect_motion cvtColor GaussianBlur frame_b g_a = Inr (m_b, g_b) \<longrightarrow>
        m_b = (MOTION_THRESHOLD * real_of_int (FRAME_WIDTH * FRAME_HEIGHT)
                < real (changed_pixels (GaussianBlur (cvtColor frame_a))
                                       (GaussianBlur (cvtColor frame_b)))))"
proof (intro conjI impI)
  assume "detect_motion cvtColor GaussianBlur frame previous = Inr (m, g)"
  then show "g = Some (GaussianBlur (cvtColor frame))"
    by (rule detect_motion_baseline)
next
  assume "detect_all cvtColor GaussianBlur frames previous = Inr (ms, g') \<and> frames \<noteq> []"
  then show "g' = Some (GaussianBlur (cvtColor (last frames)))"
    using detect_all_baseline by blast
next
  assume two: "detect_motion cvtColor GaussianBlur frame_a previous = Inr (m_a, g_a)
        \<and> detect_motion cvtColor GaussianBlur frame_b g_a = Inr (m_b, g_b)"
  from two have one: "detect_motion cvtColor GaussianBlur frame_a previous = Inr (m_a, g_a)"
    by (rule conjunct1)
  from one have base: "g_a = Some (GaussianBlur (cvtColor frame_a))"
    by (rule detect_motion_baseline)
  from two have "detect_motion cvtColor GaussianBlur frame_b g_a = Inr (m_b, g_b)"
    by (rule conjunct2)
  then have next_call: "detect_motion cvtColor GaussianBlur frame_b (Some (GaussianBlur (cvtColor frame_a)))
                   = Inr (m_b, g_b)"
    by (simp only: base)
  show "m_b = (MOTION_THRESHOLD * real_of_int (FRAME_WIDTH * FRAME_HEIGHT)
                < real (changed_pixels (GaussianBlur (cvtColor frame_a))
                                       (GaussianBlur (cvtColor frame_b))))"
  proof (cases "shape (GaussianBlur (cvtColor frame_a)) = shape (GaussianBlur (cvtColor frame_b))")
    case True
    with next_call show ?thesis
      by (simp add: detect_motion_next mult.commute)
  next
    case False
    with next_call show ?thesis
      by (simp add: detect_motion_next)
  qed
qed

theorem baseline_is_current_frame_witness:
  "detect_motion (\<lambda>f. f) (\<lambda>g. g) [[9, 9]] (Some [[200, 200]]) = Inr (False, Some [[9, 9]])
   \<and> detect_all (\<lambda>f. f) (\<lambda>g. g) [[[200, 200]], [[9, 9]]] None
        = Inr ([False, False], Some [[9, 9]])
   \<and> [[[200, 200]], [[9, 9 :: 8 word]]] \<noteq> []
   \<and> detect_motion (\<lambda>f. f) (\<lambda>g. g) [[200, 200]] None = Inr (False, Some [[200, 200]])
   \<and> Some [[9, 9 :: 8 word]] = Some ((\<lambda>g. g) ((\<lambda>f. f) (last [[[200, 200]], [[9, 9]]])))
   \<and> False = (MOTION_THRESHOLD * real_of_int (FRAME_WIDTH * FRAME_HEIGHT)
                < real (changed_pixels ((\<lambda>g. g) ((\<lambda>f. f) [[200, 200]]))
                                       ((\<lambda>g. g) ((\<lambda>f. f) [[9, 9]]))))"
proof -
  let ?a = "[[200, 200]] :: gray"
  let ?b = "[[9, 9]] :: gray"
  have one: "detect_motion (\<lambda>f. f) (\<lambda>g. g) ?a None = Inr (False, Some ?a)"
    by (simp add: detect_motion_first)
  have two: "detect_motion (\<lambda>f. f) (\<lambda>g. g) ?b (Some ?a) = Inr (False, Some ?b)"
    by (simp add: detect_motion_next shape_def changed_pixels_def MOTION_THRESHOLD_def
        FRAME_WIDTH_def FRAME_HEIGHT_def)
  have both: "detect_all (\<lambda>f. f) (\<lambda>g. g) [?a, ?b] None = Inr ([False, False], Some ?b)"
    by (simp add: one two)
  note claim = baseline_is_current_frame
    [where cvtColor = "\<lambda>f. f" and GaussianBlur = "\<lambda>g. g" and frame = ?b
       and previous = None and frames = "[?a, ?b]" and ms = "[False, False]" and g' = "Some ?b"
       and frame_a = ?a and m_a = False and g_a = "Some ?a"
       and frame_b = ?b and m_b = False and g_b = "Some ?b"]
  from claim both have last: "Some ?b = Some ((\<lambda>g. g) ((\<lambda>f. f) (last [?a, ?b])))"
    by blast
  from claim one two have cmp: "False = (MOTION_THRESHOLD * real_of_int (FRAME_WIDTH * FRAME_HEIGHT)
                < real (changed_pixels ((\<lambda>g. g) ((\<lambda>f. f) ?a)) ((\<lambda>g. g) ((\<lambda>f. f) ?b))))"
    by blast
  from one two both last cmp show ?thesis
    by blast
qed

section \<open>Properties of the worker loops\<close>

lemma run_append:
  "run cvtColor GaussianBlur st (es @ es') =
     run cvtColor GaussianBlur (run cvtColor GaussianBlur st es) es'"
  by (induction es arbitrary: st) simp_all

lemma capture_failed_read:
  assumes "capture_thread st = Cap_running" and "\<not> shutdown_event st"
  shows "step cvtColor GaussianBlur st (Capture None) = st"
  using assms by (simp add: capture_iteration_def)

lemma process_idle:
  assumes "process_thread st = Proc_running l" and "\<not> shutdown_event st"
    and "Queue_empty (frame_buffer st)"
  shows "step cvtColor GaussianBlur st (Process t1 t2 t3) = st"
  using assms by (simp add: process_iteration_def)

lemma process_shutdown:
  assumes "process_thread st = Proc_running l" and "shutdown_event st"
  shows "step cvtColor GaussianBlur st (Process t1 t2 t3) =
           st\<lparr>sink := sink st @ [Json_dump (metadata_path l) (metadata_list l), Release (out l)],
              process_thread := Proc_terminated\<rparr>"
  using assms by (simp add: process_iteration_def)

text \<open>
  Claim C9. While the capture loop runs and no shutdown is requested, an iteration whose
  read fails changes nothing: no frame is put, the buffer is as it was, the shutdown
  event stays clear and the loop goes on. This holds for any number of failed reads in
  a row: there is no limit of retries.
\<close>

theorem failed_read_skips_iteration:
  assumes "capture_thread st = Cap_running" and "\<not> shutdown_event st"
  shows "step cvtColor GaussianBlur st (Capture None) = st
         \<and> run cvtColor GaussianBlur st (replicate n (Capture None)) = st"
proof
  show one: "step cvtColor GaussianBlur st (Capture None) = st"
    using assms by (rule capture_failed_read)
  show "run cvtColor GaussianBlur st (replicate n (Capture None)) = st"
    by (induction n) (simp_all add: one del: step.simps)
qed

theorem failed_read_skips_iteration_witness:
  "capture_thread (step (\<lambda>f. f) (\<lambda>g. g) (boot :: gray state) (Start_capture True)) = Cap_running
   \<and> \<not> shutdown_event (step (\<lambda>f. f) (\<lambda>g. g) (boot :: gray state) (Start_capture True))
   \<and> run (\<lambda>f. f) (\<lambda>g. g) (step (\<lambda>f. f) (\<lambda>g. g) (boot :: gray state) (Start_capture True))
         (replicate 7 (Capture None))
       = step (\<lambda>f. f) (\<lambda>g. g) (boot :: gray state) (Start_capture True)"
proof -
  let ?st = "step (\<lambda>f. f) (\<lambda>g. g) (boot :: gray state) (Start_capture True)"
  have r: "capture_thread ?st = Cap_running"
    by (simp add: boot_def capture_start_def)
  have s: "\<not> shutdown_event ?st"
    by (simp add: boot_def capture_start_def)
  from failed_read_skips_iteration [OF r s, of "\<lambda>f. f" "\<lambda>g. g" 7] r s show ?thesis
    by blast
qed

text \<open>
  Claim C10. The rotation test belongs to the processing of a frame. An iteration of the
  processing loop that finds the buffer empty changes nothing, whatever the clock reads:
  the segment stays open, nothing is written, no new segment starts. So it is for any
  number of such iterations, until a frame arrives or shutdown is requested.
\<close>

theorem idle_iterations_never_rotate:
  assumes "process_thread st = Proc_running l" and "\<not> shutdown_event st"
    and "Queue_empty (frame_buffer st)"
  shows "step cvtColor GaussianBlur st (Process t1 t2 t3) = st
         \<and> run cvtColor GaussianBlur st (map (\<lambda>(t1, t2, t3). Process t1 t2 t3) clock) = st"
proof
  show "step cvtColor GaussianBlur st (Process t1 t2 t3) = st"
    using assms by (rule process_idle)
  show "run cvtColor GaussianBlur st (map (\<lambda>(t1, t2, t3). Process t1 t2 t3) clock) = st"
  proof (induction clock)
    case Nil
    then show ?case by simp
  next
    case (Cons c clock)
    obtain a b d where c: "c = (a, b, d)"
      by (cases c)
    have "step cvtColor GaussianBlur st (Process a b d) = st"
      using assms by (rule process_idle)
    with Cons c show ?case by (simp del: step.simps)
  qed
qed

theorem idle_iterations_never_rotate_witness:
  "process_thread (step (\<lambda>f. f) (\<lambda>g. g) (boot :: gray state) (Start_process 0))
     = Proc_running \<lparr>current_time = 0, video_path = (''recordings'', 0, ''mp4''),
                     metadata_path = (''metadata'', 0, ''json''),
                     out = (''recordings'', 0, ''mp4''), metadata_list = []\<rparr>
   \<and> \<not> shutdown_event (step (\<lambda>f. f) (\<lambda>g. g) (boot :: gray state) (Start_process 0))
   \<and> Queue_empty (frame_buffer (step (\<lambda>f. f) (\<lambda>g. g) (boot :: gray state) (Start_process 0)))
   \<and> run (\<lambda>f. f) (\<lambda>g. g) (step (\<lambda>f. f) (\<lambda>g. g) (boot :: gray state) (Start_process 0))
         (map (\<lambda>(t1, t2, t3). Process t1 t2 t3)
            [(7200000000, 7200000000, 7200000000), (36000000000, 36000000000, 36000000000)])
       = step (\<lambda>f. f) (\<lambda>g. g) (boot :: gray state) (Start_process 0)"
proof -
  let ?st = "step (\<lambda>f. f) (\<lambda>g. g) (boot :: gray state) (Start_process 0)"
  let ?l = "\<lparr>current_time = 0, video_path = (''recordings'', 0, ''mp4''),
             metadata_path = (''metadata'', 0, ''json''),
             out = (''recordings'', 0, ''mp4''), metadata_list = []\<rparr>"
  have r: "process_thread ?st = Proc_running ?l"
    by (simp add: boot_def process_start_def Let_def strftime_def VIDEO_DIR_def METADATA_DIR_def)
  have s: "\<not> shutdown_event ?st"
    by (simp add: boot_def process_start_def Let_def)
  have e: "Queue_empty (frame_buffer ?st)"
    by (simp add: boot_def process_start_def Let_def Queue_empty_def)
  from idle_iterations_never_rotate [OF r s e, of "\<lambda>f. f" "\<lambda>g. g"] r s e show ?thesis
    by blast
qed

lemmas worker_defs =
  boot_def BUFFER_SIZE_def handle_signal_def capture_start_def capture_iteration_def
  process_start_def process_iteration_def enqueue_def Queue_full_def Queue_empty_def
  Queue_get_nowait_def Queue_put_def Queue_get_def datetime_sub_def strftime_def
  VIDEO_DIR_def METADATA_DIR_def Let_def

text \<open>
  The rotation test reads the field \<^verbatim>\<open>.seconds\<close> of the elapsed time. As long as the
  elapsed time is not negative and less than a day, the test holds exactly when an hour
  or more has elapsed since the segment started.
\<close>

lemma rotation_test_within_a_day:
  assumes "0 \<le> t2 - t0" and "t2 - t0 < 86400000000"
  shows "(3600 \<le> seconds (datetime_sub t2 t0)) = (3600 * 1000000 \<le> t2 - t0)"
  using assms by (simp add: datetime_sub_def Let_def) linarith

text \<open>
  Claim C2. A rotation should be triggered whenever the time elapsed since the start of
  the segment is at least the rotation interval, also beyond 24 hours. Here a segment
  starts at time 0 and its first frame is processed one day and ten minutes later: much
  more than an hour has elapsed, but the field \<^verbatim>\<open>.seconds\<close> of the elapsed time is
  600, the test fails, no metadata file is written and the segment stays the active one.
\<close>

theorem rotation_missed_after_a_day:
  "3600 * 1000000 \<le> (87000000000 :: int) - 0
   \<and> seconds (datetime_sub 87000000000 0) = 600
   \<and> json_dumps (sink (run (\<lambda>f. f) (\<lambda>g. g) (boot :: gray state)
         [Start_capture True, Start_process 0, Capture (Some [[0]]),
          Process 87000000000 87000000000 87000000000])) = []
   \<and> process_thread (run (\<lambda>f. f) (\<lambda>g. g) (boot :: gray state)
         [Start_capture True, Start_process 0, Capture (Some [[0]]),
          Process 87000000000 87000000000 87000000000])
       = Proc_running \<lparr>current_time = 0, video_path = (''recordings'', 0, ''mp4''),
                       metadata_path = (''metadata'', 0, ''json''),
                       out = (''recordings'', 0, ''mp4''),
                       metadata_list = [\<lparr>timestamp = 87000000000, motion_detected = False\<rparr>]\<rparr>"
  by (simp add: worker_defs detect_motion_first)

text \<open>
  Claim C3, as the code has it. The rotation interval is one hour; the segment starts at
  time 0 and frames are processed at 0, 0.5 and 1.2 hours, then shutdown is requested.
  The rotation test follows the writing of the frame and of its record. Up to the second
  frame the sink holds the opening of the first writer and two frame writes to it, and
  nothing is rotated. The iteration that processes the third frame writes that frame to
  the first writer, dumps the three records to the metadata file of the first segment,
  releases the first writer and opens the second one, named after the time of the
  rotation: exactly one rotation, after the third frame. At shutdown the metadata file
  of the second segment is written with no record and the second writer is released. So
  the metadata file of the first segment holds 3 records, the one of the second none.
\<close>

theorem rotation_follows_triggering_frame:
  assumes "shape (GaussianBlur (cvtColor frame_a)) = shape (GaussianBlur (cvtColor frame_b))"
    and "shape (GaussianBlur (cvtColor frame_b)) = shape (GaussianBlur (cvtColor frame_c))"
  shows "sink (run cvtColor GaussianBlur boot
            [Start_capture True, Start_process 0,
             Capture (Some frame_a), Process 0 0 0,
             Capture (Some frame_b), Process 1800000000 1800000000 1800000000])
           = [VideoWriter (VIDEO_DIR, 0, ''mp4''),
              Write (VIDEO_DIR, 0, ''mp4'') frame_a,
              Write (VIDEO_DIR, 0, ''mp4'') frame_b]
         \<and> sink (run cvtColor GaussianBlur boot
              [Start_capture True, Start_process 0,
               Capture (Some frame_a), Process 0 0 0,
               Capture (Some frame_b), Process 1800000000 1800000000 1800000000,
               Capture (Some frame_c), Process 4320000000 4320000000 4320000000])
             = [VideoWriter (VIDEO_DIR, 0, ''mp4''),
                Write (VIDEO_DIR, 0, ''mp4'') frame_a,
                Write (VIDEO_DIR, 0, ''mp4'') frame_b,
                Write (VIDEO_DIR, 0, ''mp4'') frame_c,
                Json_dump (METADATA_DIR, 0, ''json'')
                  [\<lparr>timestamp = 0, motion_detected = False\<rparr>,
                   \<lparr>timestamp = 1800000000,
                     motion_detected =
                       (real_of_int (FRAME_WIDTH * FRAME_HEIGHT) * MOTION_THRESHOLD
                          < real (changed_pixels (GaussianBlur (cvtColor frame_a))
                                                 (GaussianBlur (cvtColor frame_b))))\<rparr>,
                   \<lparr>timestamp = 4320000000,
                     motion_detected =
                       (real_of_int (FRAME_WIDTH * FRAME_HEIGHT) * MOTION_THRESHOLD
                          < real (changed_pixels (GaussianBlur (cvtColor frame_b))
                                                 (GaussianBlur (cvtColor frame_c))))\<rparr>],
                Release (VIDEO_DIR, 0, ''mp4''),
                VideoWriter (VIDEO_DIR, 4320, ''mp4'')]
         \<and> process_thread (run cvtColor GaussianBlur boot
              [Start_capture True, Start_process 0,
               Capture (Some frame_a), Process 0 0 0,
               Capture (Some frame_b), Process 1800000000 1800000000 1800000000,
               Capture (Some frame_c), Process 4320000000 4320000000 4320000000])
             = Proc_running \<lparr>current_time = 4320000000,
                             video_path = (VIDEO_DIR, 4320, ''mp4''),
                             metadata_path = (METADATA_DIR, 4320, ''json''),
                             out = (VIDEO_DIR, 4320, ''mp4''), metadata_list = []\<rparr>
         \<and> sink (run cvtColor GaussianBlur boot
              [Start_capture True, Start_process 0,
               Capture (Some frame_a), Process 0 0 0,
               Capture (Some frame_b), Process 1800000000 1800000000 1800000000,
               Capture (Some frame_c), Process 4320000000 4320000000 4320000000,
               Signal, Process ta tb tc])
             = sink (run cvtColor GaussianBlur boot
                 [Start_capture True, Start_process 0,
                  Capture (Some frame_a), Process 0 0 0,
                  Capture (Some frame_b), Process 1800000000 1800000000 1800000000,
                  Capture (Some frame_c), Process 4320000000 4320000000 4320000000])
               @ [Json_dump (METADATA_DIR, 4320, ''json'') [],
                  Release (VIDEO_DIR, 4320, ''mp4'')]
         \<and> json_dumps (sink (run cvtColor GaussianBlur boot
            [Start_capture True, Start_process 0,
             Capture (Some frame_a), Process 0 0 0,
             Capture (Some frame_b), Process 1800000000 1800000000 1800000000])) = []
         \<and> map (\<lambda>(p, records). (p, length records))
             (json_dumps (sink (run cvtColor GaussianBlur boot
                [Start_capture True, Start_process 0,
                 Capture (Some frame_a), Process 0 0 0,
                 Capture (Some frame_b), Process 1800000000 1800000000 1800000000,
                 Capture (Some frame_c), Process 4320000000 4320000000 4320000000])))
             = [((METADATA_DIR, 0, ''json''), 3)]
         \<and> map (\<lambda>(p, records). (p, length records))
             (json_dumps (sink (run cvtColor GaussianBlur boot
                [Start_capture True, Start_process 0,
                 Capture (Some frame_a), Process 0 0 0,
                 Capture (Some frame_b), Process 1800000000 1800000000 1800000000,
                 Capture (Some frame_c), Process 4320000000 4320000000 4320000000,
                 Signal, Process ta tb tc])))
             = [((METADATA_DIR, 0, ''json''), 3), ((METADATA_DIR, 4320, ''json''), 0)]"
  using assms
  by (simp add: worker_defs detect_motion_first detect_motion_next)

theorem rotation_follows_triggering_frame_witness:
  "shape ((\<lambda>g. g) ((\<lambda>f. f) [[0]])) = shape ((\<lambda>g. g) ((\<lambda>f. f) [[0]]))
   \<and> sink (run (\<lambda>f. f) (\<lambda>g. g) (boot :: gray state)
            [Start_capture True, Start_process 0,
             Capture (Some [[0]]), Process 0 0 0,
             Capture (Some [[0]]), Process 1800000000 1800000000 1800000000,
             Capture (Some [[0]]), Process 4320000000 4320000000 4320000000,
             Signal, Process 5000000000 5000000000 5000000000])
       = [VideoWriter (''recordings'', 0, ''mp4''),
          Write (''recordings'', 0, ''mp4'') [[0]],
          Write (''recordings'', 0, ''mp4'') [[0]],
          Write (''recordings'', 0, ''mp4'') [[0]],
          Json_dump (''metadata'', 0, ''json'')
            [\<lparr>timestamp = 0, motion_detected = False\<rparr>,
             \<lparr>timestamp = 1800000000, motion_detected = False\<rparr>,
             \<lparr>timestamp = 4320000000, motion_detected = False\<rparr>],
          Release (''recordings'', 0, ''mp4''),
          VideoWriter (''recordings'', 4320, ''mp4''),
          Json_dump (''metadata'', 4320, ''json'') [],
          Release (''recordings'', 4320, ''mp4'')]
   \<and> map (\<lambda>(p, records). (p, length records))
         (json_dumps (sink (run (\<lambda>f. f) (\<lambda>g. g) (boot :: gray state)
            [Start_capture True, Start_process 0,
             Capture (Some [[0]]), Process 0 0 0,
             Capture (Some [[0]]), Process 1800000000 1800000000 1800000000,
             Capture (Some [[0]]), Process 4320000000 4320000000 4320000000,
             Signal, Process 5000000000 5000000000 5000000000])))
       = [((METADATA_DIR, 0, ''json''), 3), ((METADATA_DIR, 4320, ''json''), 0)]"
proof -
  have same: "shape ((\<lambda>g. g) ((\<lambda>f. f) [[0]])) = shape ((\<lambda>g. g) ((\<lambda>f. f) [[0]]))"
    by (rule refl)
  have still: "changed_pixels [[0]] [[0]] = 0"
    by (rule changed_pixels_same)
  note claim = rotation_follows_triggering_frame
    [where cvtColor = "\<lambda>f. f" and GaussianBlur = "\<lambda>g. g" and frame_a = "[[0]]"
       and frame_b = "[[0]]" and frame_c = "[[0]]"
       and ta = 5000000000 and tb = 5000000000 and tc = 5000000000]
  from claim same have three: "sink (run (\<lambda>f. f) (\<lambda>g. g) (boot :: gray state)
            [Start_capture True, Start_process 0,
             Capture (Some [[0]]), Process 0 0 0,
             Capture (Some [[0]]), Process 1800000000 1800000000 1800000000,
             Capture (Some [[0]]), Process 4320000000 4320000000 4320000000])
       = [VideoWriter (''recordings'', 0, ''mp4''),
          Write (''recordings'', 0, ''mp4'') [[0]],
          Write (''recordings'', 0, ''mp4'') [[0]],
          Write (''recordings'', 0, ''mp4'') [[0]],
          Json_dump (''metadata'', 0, ''json'')
            [\<lparr>timestamp = 0, motion_detected = False\<rparr>,
             \<lparr>timestamp = 1800000000, motion_detected = False\<rparr>,
             \<lparr>timestamp = 4320000000, motion_detected = False\<rparr>],
          Release (''recordings'', 0, ''mp4''),
          VideoWriter (''recordings'', 4320, ''mp4'')]"
    by (simp add: still VIDEO_DIR_def METADATA_DIR_def MOTION_THRESHOLD_def FRAME_WIDTH_def
        FRAME_HEIGHT_def del: run.simps)
  from claim same have "sink (run (\<lambda>f. f) (\<lambda>g. g) (boot :: gray state)
            [Start_capture True, Start_process 0,
             Capture (Some [[0]]), Process 0 0 0,
             Capture (Some [[0]]), Process 1800000000 1800000000 1800000000,
             Capture (Some [[0]]), Process 4320000000 4320000000 4320000000,
             Signal, Process 5000000000 5000000000 5000000000])
       = sink (run (\<lambda>f. f) (\<lambda>g. g) (boot :: gray state)
            [Start_capture True, Start_process 0,
             Capture (Some [[0]]), Process 0 0 0,
             Capture (Some [[0]]), Process 1800000000 1800000000 1800000000,
             Capture (Some [[0]]), Process 4320000000 4320000000 4320000000])
         @ [Json_dump (METADATA_DIR, 4320, ''json'') [], Release (VIDEO_DIR, 4320, ''mp4'')]"
    by blast
  then have all: "sink (run (\<lambda>f. f) (\<lambda>g. g) (boot :: gray state)
            [Start_capture True, Start_process 0,
             Capture (Some [[0]]), Process 0 0 0,
             Capture (Some [[0]]), Process 1800000000 1800000000 1800000000,
             Capture (Some [[0]]), Process 4320000000 4320000000 4320000000,
             Signal, Process 5000000000 5000000000 5000000000])
       = [VideoWriter (''recordings'', 0, ''mp4''),
          Write (''recordings'', 0, ''mp4'') [[0]],
          Write (''recordings'', 0, ''mp4'') [[0]],
          Write (''recordings'', 0, ''mp4'') [[0]],
          Json_dump (''metadata'', 0, ''json'')
            [\<lparr>timestamp = 0, motion_detected = False\<rparr>,
             \<lparr>timestamp = 1800000000, motion_detected = False\<rparr>,
             \<lparr>timestamp = 4320000000, motion_detected = False\<rparr>],
          Release (''recordings'', 0, ''mp4''),
          VideoWriter (''recordings'', 4320, ''mp4''),
          Json_dump (''metadata'', 4320, ''json'') [],
          Release (''recordings'', 4320, ''mp4'')]"
    by (simp only: three) (simp add: VIDEO_DIR_def METADATA_DIR_def)
  from claim same have counts: "map (\<lambda>(p, records). (p, length records))
         (json_dumps (sink (run (\<lambda>f. f) (\<lambda>g. g) (boot :: gray state)
            [Start_capture True, Start_process 0,
             Capture (Some [[0]]), Process 0 0 0,
             Capture (Some [[0]]), Process 1800000000 1800000000 1800000000,
             Capture (Some [[0]]), Process 4320000000 4320000000 4320000000,
             Signal, Process 5000000000 5000000000 5000000000])))
       = [((METADATA_DIR, 0, ''json''), 3), ((METADATA_DIR, 4320, ''json''), 0)]"
    by blast
  from same all counts show ?thesis
    by blast
qed

text \<open>
  The same scenario on three frames of one black pixel: the two metadata files do not
  hold 2 records and 1 record.
\<close>

theorem scenario_record_counts_counterexample:
  "\<not> (map (\<lambda>(p, records). length records)
         (json_dumps (sink (run (\<lambda>f. f) (\<lambda>g. g) (boot :: gray state)
            [Start_capture True, Start_process 0,
             Capture (Some [[0]]), Process 0 0 0,
             Capture (Some [[0]]), Process 1800000000 1800000000 1800000000,
             Capture (Some [[0]]), Process 4320000000 4320000000 4320000000,
             Signal, Process 5000000000 5000000000 5000000000]))) = [2, 1])"
  by (simp add: worker_defs detect_motion_first detect_motion_next shape_def)

section \<open>Shutdown\<close>

lemma step_segment_inv:
  assumes "segment_inv st"
  shows "segment_inv (step cvtColor GaussianBlur st e)"
proof (cases e)
  case Signal
  with assms show ?thesis
    by (auto simp: segment_inv_def handle_signal_def split: proc_thread.splits)
next
  case (Start_capture opened)
  with assms show ?thesis
    by (auto simp: segment_inv_def capture_start_def split: proc_thread.splits)
next
  case (Capture read)
  with assms show ?thesis
    by (auto simp: segment_inv_def capture_iteration_def split: option.splits proc_thread.splits)
next
  case (Start_process t0)
  with assms show ?thesis
    by (auto simp: segment_inv_def process_start_def Let_def split: proc_thread.splits)
next
  case (Process t1 t2 t3)
  show ?thesis
  proof (cases "process_thread st")
    case (Proc_running l)
    with assms have n: "written_since_open (out l) (rev (sink st)) = Some (length (metadata_list l))"
      by (simp add: segment_inv_def)
    from Process Proc_running n show ?thesis
      by (simp add: segment_inv_def process_iteration_def Let_def
          split: option.splits sum.splits prod.splits)
  qed (use assms Process in \<open>simp_all add: segment_inv_def\<close>)
qed

lemma run_segment_inv:
  assumes "segment_inv st"
  shows "segment_inv (run cvtColor GaussianBlur st es)"
  using assms
proof (induction es arbitrary: st)
  case Nil
  then show ?case by simp
next
  case (Cons e es)
  from Cons.prems have "segment_inv (step cvtColor GaussianBlur st e)"
    by (rule step_segment_inv)
  then have "segment_inv (run cvtColor GaussianBlur (step cvtColor GaussianBlur st e) es)"
    by (rule Cons.IH)
  then show ?case by simp
qed

lemma boot_segment_inv: "segment_inv boot"
  by (simp add: segment_inv_def boot_def)

lemma json_dumps_append: "json_dumps (es @ es') = json_dumps es @ json_dumps es'"
  by (induction es rule: json_dumps.induct) simp_all

lemma rotation_advances:
  assumes "3600 \<le> seconds (datetime_sub t2 t0)" and "t0 \<le> t2" and "t2 \<le> t3"
  shows "strftime t0 < strftime t3"
proof -
  have "(t2 - t0) mod 86400000000 \<le> t2 - t0"
    using assms(2) by (simp add: zmod_le_nonneg_dividend)
  moreover from assms(1) have "3600 * 1000000 \<le> (t2 - t0) mod 86400000000"
    by (simp add: datetime_sub_def Let_def)
  ultimately have "t0 + 3600 * 1000000 \<le> t3"
    using assms(3) by linarith
  then have "(t0 + 3600 * 1000000) div 1000000 \<le> t3 div 1000000"
    by (rule zdiv_mono1) simp
  then show ?thesis
    by (simp add: strftime_def)
qed

lemma step_fresh_inv:
  assumes inv: "fresh_inv now st"
    and later: "\<forall>t \<in> set (readings e). now \<le> t"
    and mono: "sorted (readings e)"
  shows "fresh_inv (last (now # readings e)) (step cvtColor GaussianBlur st e)"
proof (cases e)
  case Signal
  with inv show ?thesis
    by (auto simp: fresh_inv_def handle_signal_def split: proc_thread.splits)
next
  case (Start_capture opened)
  with inv show ?thesis
    by (auto simp: fresh_inv_def capture_start_def split: proc_thread.splits)
next
  case (Capture read)
  with inv show ?thesis
    by (auto simp: fresh_inv_def capture_iteration_def split: option.splits proc_thread.splits)
next
  case (Start_process t0)
  with inv later show ?thesis
    by (auto simp: fresh_inv_def process_start_def Let_def json_dumps_append
        split: proc_thread.splits)
next
  case (Process t1 t2 t3)
  with later mono have order: "now \<le> t1" "t1 \<le> t2" "t2 \<le> t3"
    by simp_all
  show ?thesis
  proof (cases "process_thread st")
    case (Proc_running l)
    with inv have cur: "current_time l \<le> now"
      and name: "metadata_path l = (METADATA_DIR, strftime (current_time l), ''json'')"
      and old: "\<forall>(p, records) \<in> set (json_dumps (sink st)). fst (snd p) < strftime (current_time l)"
      by (simp_all add: fresh_inv_def)
    from cur order have "current_time l \<le> t2" and le3: "current_time l \<le> t3"
      by simp_all
    then have adv: "strftime (current_time l) < strftime t3"
      if "3600 \<le> seconds (datetime_sub t2 (current_time l))"
      using that order(3) by (auto intro: rotation_advances)
    from old adv have old': "\<forall>(p, records) \<in> set (json_dumps (sink st)). fst (snd p) < strftime t3"
      if "3600 \<le> seconds (datetime_sub t2 (current_time l))"
      using that by fastforce
    from Process Proc_running cur name old le3 adv old' show ?thesis
      by (auto simp: fresh_inv_def process_iteration_def Let_def json_dumps_append
          split: option.splits sum.splits prod.splits)
  qed (use inv Process in \<open>auto simp: fresh_inv_def\<close>)
qed

lemma run_fresh_inv:
  assumes "fresh_inv now st" and "sorted (now # concat (map readings es))"
  shows "\<exists>now'. fresh_inv now' (run cvtColor GaussianBlur st es)"
  using assms
proof (induction es arbitrary: st now)
  case Nil
  then show ?case by auto
next
  case (Cons e es)
  let ?now' = "last (now # readings e)"
  from Cons.prems(2) have later: "\<forall>t \<in> set (readings e). now \<le> t"
    and mono: "sorted (readings e)"
    and rest: "sorted (concat (map readings es))"
    and cross: "\<forall>t \<in> set (readings e). \<forall>u \<in> set (concat (map readings es)). t \<le> u"
    and far: "\<forall>u \<in> set (concat (map readings es)). now \<le> u"
    by (auto simp: sorted_append)
  have "fresh_inv ?now' (step cvtColor GaussianBlur st e)"
    using Cons.prems(1) later mono by (rule step_fresh_inv)
  moreover have "sorted (?now' # concat (map readings es))"
  proof (cases "readings e = []")
    case True
    with far rest show ?thesis by simp
  next
    case False
    then have "last (readings e) \<in> set (readings e)"
      by simp
    with cross rest False show ?thesis by simp
  qed
  ultimately have "\<exists>now'. fresh_inv now' (run cvtColor GaussianBlur (step cvtColor GaussianBlur st e) es)"
    by (rule Cons.IH)
  then show ?case by simp
qed

lemma reachable_fresh:
  assumes "sorted (concat (map readings es))"
    and "process_thread (run cvtColor GaussianBlur boot es) = Proc_running l"
  shows "\<forall>(p, records) \<in> set (json_dumps (sink (run cvtColor GaussianBlur boot es))).
           p \<noteq> metadata_path l"
proof -
  define clock where "clock = concat (map readings es)"
  define now :: datetime where "now = (if clock = [] then 0 else hd clock)"
  have "fresh_inv now (boot :: 'a state)"
    by (simp add: fresh_inv_def boot_def)
  moreover from assms(1) have "sorted clock"
    by (simp only: clock_def)
  then have "sorted (now # clock)"
    by (cases clock) (auto simp: now_def)
  then have "sorted (now # concat (map readings es))"
    by (simp only: clock_def)
  ultimately obtain now' where "fresh_inv now' (run cvtColor GaussianBlur boot es)"
    using run_fresh_inv by blast
  with assms(2) show ?thesis
    by (fastforce simp: fresh_inv_def)
qed


text \<open>
  Claim C6. When the processing loop finds the shutdown event set, whatever the state of
  its segment, it writes the metadata list of the active segment to the metadata file of
  that segment, once, releases the video writer and terminates; an empty list is
  written as it is. In every state the system reaches from its start, that list has one
  record for each frame written to the active video writer since it was opened, so
  nothing accumulated is lost. When the clock never runs backwards, no earlier segment
  had the same file name: after shutdown the file of the active segment has been written
  exactly once.
\<close>

theorem shutdown_flushes_active_segment:
  assumes "process_thread st = Proc_running l" and "shutdown_event st"
  shows "step cvtColor GaussianBlur st (Process ta tb tc) =
           st\<lparr>sink := sink st @ [Json_dump (metadata_path l) (metadata_list l), Release (out l)],
              process_thread := Proc_terminated\<rparr>
         \<and> (st = run cvtColor GaussianBlur boot es \<longrightarrow>
               written_since_open (out l) (rev (sink st)) = Some (length (metadata_list l)))
         \<and> (st = run cvtColor GaussianBlur boot es \<and> sorted (concat (map readings es)) \<longrightarrow>
               filter (\<lambda>(p, records). p = metadata_path l)
                 (json_dumps (sink (step cvtColor GaussianBlur st (Process ta tb tc))))
               = [(metadata_path l, metadata_list l)])"
proof (intro conjI impI)
  show flush: "step cvtColor GaussianBlur st (Process ta tb tc) =
           st\<lparr>sink := sink st @ [Json_dump (metadata_path l) (metadata_list l), Release (out l)],
              process_thread := Proc_terminated\<rparr>"
    using assms by (rule process_shutdown)
  {
    assume "st = run cvtColor GaussianBlur boot es"
    then have "segment_inv st"
      using run_segment_inv [OF boot_segment_inv] by simp
    with assms(1) show "written_since_open (out l) (rev (sink st)) = Some (length (metadata_list l))"
      by (simp add: segment_inv_def)
  }
  {
    assume reach: "st = run cvtColor GaussianBlur boot es \<and> sorted (concat (map readings es))"
    with assms(1) have "\<forall>(p, records) \<in> set (json_dumps (sink st)). p \<noteq> metadata_path l"
      using reachable_fresh by blast
    then have "filter (\<lambda>(p, records). p = metadata_path l) (json_dumps (sink st)) = []"
      by (auto simp: filter_empty_conv)
    then show "filter (\<lambda>(p, records). p = metadata_path l)
                 (json_dumps (sink (step cvtColor GaussianBlur st (Process ta tb tc))))
               = [(metadata_path l, metadata_list l)]"
      by (simp add: flush json_dumps_append del: step.simps)
  }
qed

theorem shutdown_flushes_active_segment_witness:
  "process_thread (run (\<lambda>f. f) (\<lambda>g. g) (boot :: gray state) [Start_process 0, Signal])
     = Proc_running \<lparr>current_time = 0, video_path = (''recordings'', 0, ''mp4''),
                     metadata_path = (''metadata'', 0, ''json''),
                     out = (''recordings'', 0, ''mp4''), metadata_list = []\<rparr>
   \<and> shutdown_event (run (\<lambda>f. f) (\<lambda>g. g) (boot :: gray state) [Start_process 0, Signal])
   \<and> sorted (concat (map readings [Start_process 0, Signal :: gray event]))
   \<and> sink (step (\<lambda>f. f) (\<lambda>g. g)
            (run (\<lambda>f. f) (\<lambda>g. g) (boot :: gray state) [Start_process 0, Signal])
            (Process 9000000 9000000 9000000))
       = [VideoWriter (''recordings'', 0, ''mp4''), Json_dump (''metadata'', 0, ''json'') [],
          Release (''recordings'', 0, ''mp4'')]
   \<and> filter (\<lambda>(p, records). p = (''metadata'', 0, ''json''))
         (json_dumps (sink (step (\<lambda>f. f) (\<lambda>g. g)
            (run (\<lambda>f. f) (\<lambda>g. g) (boot :: gray state) [Start_process 0, Signal])
            (Process 9000000 9000000 9000000))))
       = [((''metadata'', 0, ''json''), [])]"
proof -
  let ?es = "[Start_process 0, Signal :: gray event]"
  let ?st = "run (\<lambda>f. f) (\<lambda>g. g) (boot :: gray state) ?es"
  let ?l = "\<lparr>current_time = 0, video_path = (''recordings'', 0, ''mp4''),
             metadata_path = (''metadata'', 0, ''json''),
             out = (''recordings'', 0, ''mp4''), metadata_list = []\<rparr>"
  have r: "process_thread ?st = Proc_running ?l"
    by (simp add: worker_defs)
  have s: "shutdown_event ?st"
    by (simp add: worker_defs)
  have c: "sorted (concat (map readings ?es))"
    by simp
  have k: "sink ?st = [VideoWriter (''recordings'', 0, ''mp4'')]"
    by (simp add: worker_defs)
  note claim = shutdown_flushes_active_segment
    [OF r s, where cvtColor = "\<lambda>f. f" and GaussianBlur = "\<lambda>g. g" and es = ?es
       and ta = 9000000 and tb = 9000000 and tc = 9000000]
  from claim have "step (\<lambda>f. f) (\<lambda>g. g) ?st (Process 9000000 9000000 9000000) =
      ?st\<lparr>sink := sink ?st @ [Json_dump (metadata_path ?l) (metadata_list ?l), Release (out ?l)],
           process_thread := Proc_terminated\<rparr>"
    by (rule conjunct1)
  then have a: "sink (step (\<lambda>f. f) (\<lambda>g. g) ?st (Process 9000000 9000000 9000000))
      = [VideoWriter (''recordings'', 0, ''mp4''), Json_dump (''metadata'', 0, ''json'') [],
         Release (''recordings'', 0, ''mp4'')]"
    by (simp add: k del: step.simps run.simps)
  from claim c have "filter (\<lambda>(p, records). p = metadata_path ?l)
         (json_dumps (sink (step (\<lambda>f. f) (\<lambda>g. g) ?st (Process 9000000 9000000 9000000))))
       = [(metadata_path ?l, metadata_list ?l)]"
    by blast
  then have b: "filter (\<lambda>(p, records). p = (''metadata'', 0, ''json''))
         (json_dumps (sink (step (\<lambda>f. f) (\<lambda>g. g) ?st (Process 9000000 9000000 9000000))))
       = [((''metadata'', 0, ''json''), [])]"
    by (simp del: step.simps run.simps)
  from r s c a b show ?thesis
    by blast
qed

end
